theory Spec2Isabelle
  imports Main "HOL-Library.Word"
begin

section \<open>The UDP procfs exporter: data\<close>

text \<open>
  The exporter is a single Go file. Go's \<open>int\<close> is taken at 64 bits (the Dockerfile
  of the repository builds it with the \<open>golang\<close> image for a 64-bit platform): \<open>+\<close>
  and \<open>-\<close> wrap around and comparisons read the value as two's complement. Go strings
  are byte strings, here \<open>string\<close>.
\<close>

type_synonym int64 = "64 word"

text \<open>
  A run-time panic of the Go program. Nothing in the program recovers from a panic, so
  a panic terminates the process.
\<close>

datatype go_panic = IndexOutOfRange | SliceBoundsOutOfRange

text \<open>The lines the program prints with \<open>fmt.Println\<close>, without the error's own text.\<close>

datatype diag = UnableToParseQueued | UnableToParseDropped | DroppedWentNegative

text \<open>The two label values of the metric vectors.\<close>

datatype label = udp | udp6

text \<open>
  What the program does to the outside world in the sampling loop, in order: a printed
  line, \<open>udpBufferQueued.WithLabelValues(l).Set(float64(v))\<close> and
  \<open>udpBufferDropped.WithLabelValues(l).Add(float64(v))\<close>. The event keeps the
  \<open>int\<close> that the program converts to \<open>float64\<close>.
\<close>

datatype event = Println diag | GaugeSet label int64 | CounterAdd label int64

section \<open>The library functions the program calls\<close>

subsection \<open>\<open>strings.Fields\<close>\<close>

text \<open>
  \<open>strings.Fields\<close> splits a string around each run of white space characters, as
  \<open>unicode.IsSpace\<close> defines them, and returns the non-empty pieces. In UTF-8 a white
  space character is one of the six ASCII bytes 09 to 0D and 20, the two-byte sequences
  C2 85 and C2 A0, or one of the three-byte sequences of U+1680, U+2000 to U+200A,
  U+2028, U+2029, U+202F, U+205F and U+3000. The first byte of each of them can only
  begin a character, so looking for these sequences byte by byte finds exactly the white
  space characters. \<open>spaceLen s\<close> is the number of bytes of the white space character at
  the head of \<open>s\<close>, and 0 when there is none.
\<close>

definition spaceLen :: "string \<Rightarrow> nat" where
  "spaceLen s =
     (if s = [] then 0
      else if hd s \<in> {CHR 0x09, CHR 0x0A, CHR 0x0B, CHR 0x0C, CHR 0x0D, CHR 0x20} then 1
      else if take 2 s \<in> {[CHR 0xC2, CHR 0x85], [CHR 0xC2, CHR 0xA0]} then 2
      else if take 3 s = [CHR 0xE1, CHR 0x9A, CHR 0x80] then 3
      else if take 2 s = [CHR 0xE2, CHR 0x80] \<and> 3 \<le> length s \<and>
              (of_char (s ! 2) :: nat) \<in> {0x80..0x8A} \<union> {0xA8, 0xA9, 0xAF} then 3
      else if take 3 s = [CHR 0xE2, CHR 0x81, CHR 0x9F] then 3
      else if take 3 s = [CHR 0xE3, CHR 0x80, CHR 0x80] then 3
      else 0)"

text \<open>
  \<open>fieldsFrom k cur s\<close>: \<open>k\<close> bytes of a white space character are still to be skipped,
  \<open>cur\<close> holds the bytes of the field being read, in reverse.
\<close>

fun fieldsFrom :: "nat \<Rightarrow> string \<Rightarrow> string \<Rightarrow> string list" where
  "fieldsFrom k cur [] = (if cur = [] then [] else [rev cur])"
| "fieldsFrom (Suc k) cur (c # cs) = fieldsFrom k cur cs"
| "fieldsFrom 0 cur (c # cs) =
     (if spaceLen (c # cs) = 0 then fieldsFrom 0 (c # cur) cs
      else (if cur = [] then [] else [rev cur]) @ fieldsFrom (spaceLen (c # cs) - 1) [] cs)"

definition Fields :: "string \<Rightarrow> string list" where
  "Fields s = fieldsFrom 0 [] s"

subsection \<open>\<open>strings.Split\<close> with a one-byte separator\<close>

text \<open>
  \<open>strings.Split(s, sep)\<close> returns the pieces of \<open>s\<close> between the occurrences of
  \<open>sep\<close>: always at least one piece, and exactly one when \<open>sep\<close> does not occur.
\<close>

fun splitFrom :: "char \<Rightarrow> string \<Rightarrow> string \<Rightarrow> string list" where
  "splitFrom sep cur [] = [rev cur]"
| "splitFrom sep cur (c # cs) =
     (if c = sep then rev cur # splitFrom sep [] cs else splitFrom sep (c # cur) cs)"

definition Split :: "string \<Rightarrow> char \<Rightarrow> string list" where
  "Split s sep = splitFrom sep [] s"

subsection \<open>\<open>strconv.ParseInt\<close>, \<open>strconv.Atoi\<close> and \<open>strconv.Itoa\<close>\<close>

text \<open>
  The value of a digit: \<open>0\<close> to \<open>9\<close>, and a letter of either case counted from 10.
  Any other byte is a syntax error.
\<close>

definition digitVal :: "char \<Rightarrow> nat option" where
  "digitVal c =
     (let n = (of_char c :: nat) in
      if 48 \<le> n \<and> n \<le> 57 then Some (n - 48)
      else if 97 \<le> n \<and> n \<le> 122 then Some (n - 97 + 10)
      else if 65 \<le> n \<and> n \<le> 90 then Some (n - 65 + 10)
      else None)"

fun parseDigits :: "nat \<Rightarrow> nat \<Rightarrow> string \<Rightarrow> nat option" where
  "parseDigits base acc [] = Some acc"
| "parseDigits base acc (c # cs) =
     (case digitVal c of
        None \<Rightarrow> None
      | Some d \<Rightarrow> if base \<le> d then None else parseDigits base (acc * base + d) cs)"

text \<open>
  \<open>ParseUint s base bitSize\<close> for an explicit base (no prefix and no underscore is
  accepted then): \<open>None\<close> stands for a non-nil error, which is a syntax error or a value
  above \<open>2 ^ bitSize - 1\<close>.
\<close>

definition ParseUint :: "string \<Rightarrow> nat \<Rightarrow> nat \<Rightarrow> nat option" where
  "ParseUint s base bitSize =
     (if s = [] then None
      else case parseDigits base 0 s of
             None \<Rightarrow> None
           | Some n \<Rightarrow> if 2 ^ bitSize - 1 < n then None else Some n)"

text \<open>
  \<open>ParseInt\<close> takes an optional sign off and checks the range of a signed integer of
  \<open>bitSize\<close> bits. Its result is an \<open>int64\<close>.
\<close>

definition ParseInt :: "string \<Rightarrow> nat \<Rightarrow> nat \<Rightarrow> int64 option" where
  "ParseInt s base bitSize =
     (if s = [] then None
      else let neg = (hd s = CHR ''-'');
               s1 = (if hd s = CHR ''+'' \<or> hd s = CHR ''-'' then tl s else s)
           in case ParseUint s1 base bitSize of
                None \<Rightarrow> None
              | Some un \<Rightarrow>
                  let cutoff = (2::nat) ^ (bitSize - 1) in
                  if \<not> neg \<and> cutoff \<le> un then None
                  else if neg \<and> cutoff < un then None
                  else Some (if neg then - of_int (int un) else of_int (int un)))"

text \<open>\<open>Atoi(s)\<close> is \<open>ParseInt(s, 10, 0)\<close> converted to \<open>int\<close>; bit size 0 is that of \<open>int\<close>.\<close>

definition Atoi :: "string \<Rightarrow> int64 option" where
  "Atoi s = ParseInt s 10 64"

text \<open>\<open>Itoa\<close> writes an \<open>int\<close> in decimal, with a minus sign when it is negative.\<close>

fun decOfNat :: "nat \<Rightarrow> string" where
  "decOfNat n =
     (if n < 10 then [''0123456789'' ! n]
      else decOfNat (n div 10) @ [''0123456789'' ! (n mod 10)])"

declare decOfNat.simps [simp del]

definition Itoa :: "int64 \<Rightarrow> string" where
  "Itoa i = (if sint i < 0 then CHR ''-'' # decOfNat (nat (- sint i)) else decOfNat (nat (sint i)))"

subsection \<open>Searching and slicing byte strings\<close>

text \<open>\<open>strings.Contains\<close>, \<open>strings.Count\<close> of a one-byte string, \<open>bytes.IndexByte\<close> and
  \<open>strings.LastIndex\<close> of a one-byte string (both -1 when the byte is absent).\<close>

fun Contains :: "string \<Rightarrow> string \<Rightarrow> bool" where
  "Contains [] sub = (sub = [])"
| "Contains (c # cs) sub = (take (length sub) (c # cs) = sub \<or> Contains cs sub)"

definition Count :: "string \<Rightarrow> char \<Rightarrow> nat" where
  "Count s c = length (filter (\<lambda>x. x = c) s)"

fun IndexByte :: "string \<Rightarrow> char \<Rightarrow> int" where
  "IndexByte [] c = - 1"
| "IndexByte (x # xs) c =
     (if x = c then 0 else if IndexByte xs c < 0 then - 1 else IndexByte xs c + 1)"

definition LastIndex :: "string \<Rightarrow> char \<Rightarrow> int" where
  "LastIndex s c =
     (if IndexByte (rev s) c < 0 then - 1 else int (length s) - 1 - IndexByte (rev s) c)"

text \<open>The slice expression \<open>s[lo:hi]\<close>: it panics unless \<open>0 \<le> lo \<le> hi \<le> len(s)\<close>.\<close>

definition slice :: "string \<Rightarrow> int \<Rightarrow> int \<Rightarrow> go_panic + string" where
  "slice s lo hi =
     (if 0 \<le> lo \<and> lo \<le> hi \<and> hi \<le> int (length s)
      then Inr (take (nat (hi - lo)) (drop (nat lo) s))
      else Inl SliceBoundsOutOfRange)"

section \<open>The socket table parser\<close>

text \<open>
  What \<open>parseProcfsNetFile\<close> sees of the file: \<open>None\<close> when \<open>os.Open\<close> returns an
  error, otherwise the lines that the \<open>bufio.Scanner\<close> delivers one after the other
  (\<open>s.Text()\<close> of every successful \<open>s.Scan()\<close>).
\<close>

type_synonym source = "string list option"

text \<open>
  The loop \<open>for n := 0; s.Scan(); n++\<close> over the remaining lines, with the running
  totals. The result is the printed lines and either a panic or the returned pair
  \<open>(queued, dropped)\<close>. The line counter \<open>n\<close> is only compared with 1; it is a natural
  number here (a file does not have \<open>2 ^ 63\<close> lines).
\<close>

fun scanLoop :: "nat \<Rightarrow> int64 \<Rightarrow> int64 \<Rightarrow> string list \<Rightarrow> diag list \<times> (go_panic + int64 \<times> int64)" where
  "scanLoop n queued dropped [] = ([], Inr (queued, dropped))"
| "scanLoop n queued dropped (text # rest) =
     (if n < 1 then scanLoop (n + 1) queued dropped rest
      else
        let fields = Fields text in
        if length fields \<le> 4 then ([], Inl IndexOutOfRange)
        else if length (Split (fields ! 4) CHR '':'') \<le> 1 then ([], Inl IndexOutOfRange)
        else
          case ParseInt (Split (fields ! 4) CHR '':'' ! 1) 16 32 of
            None \<Rightarrow> ([UnableToParseQueued], Inr (0, 0))
          | Some queuedLine \<Rightarrow>
              if length fields \<le> 12 then ([], Inl IndexOutOfRange)
              else
                case Atoi (fields ! 12) of
                  None \<Rightarrow> ([UnableToParseDropped], Inr (0, 0))
                | Some droppedLine \<Rightarrow>
                    scanLoop (n + 1) (queued + queuedLine) (dropped + droppedLine) rest)"

definition parseProcfsNetFile :: "source \<Rightarrow> diag list \<times> (go_panic + int64 \<times> int64)" where
  "parseProcfsNetFile f =
     (case f of
        None \<Rightarrow> ([], Inr (0, 0))
      | Some lines \<Rightarrow> scanLoop 0 0 0 lines)"

section \<open>The sampling loop\<close>

text \<open>
  One pass through the body of the \<open>for\<close> loop of \<open>watchUDPBuffers\<close>: the two files as
  they are at this tick, the two values \<open>lastDropped\<close> and \<open>lastDropped6\<close> before, and
  after. A panic in a parse ends the process after the events that came before it.
\<close>

definition tick :: "int64 \<Rightarrow> int64 \<Rightarrow> source \<Rightarrow> source \<Rightarrow> event list \<times> (go_panic + int64 \<times> int64)" where
  "tick lastDropped lastDropped6 file file6 =
     (case parseProcfsNetFile file of
        (out, Inl p) \<Rightarrow> (map Println out, Inl p)
      | (out, Inr (queuedUDP, droppedUDP)) \<Rightarrow>
          let diff = droppedUDP - lastDropped;
              ev = map Println out @ [GaugeSet udp queuedUDP] @
                   (if diff <s 0 then [Println DroppedWentNegative] else []) @
                   [CounterAdd udp (if diff <s 0 then 0 else diff)];
              droppedUDP = (if diff <s 0 then lastDropped else droppedUDP)
          in
          case parseProcfsNetFile file6 of
            (out6, Inl p) \<Rightarrow> (ev @ map Println out6, Inl p)
          | (out6, Inr (queuedUDP6, droppedUDP6)) \<Rightarrow>
              let diff6 = droppedUDP6 - lastDropped6;
                  ev6 = map Println out6 @ [GaugeSet udp6 queuedUDP6] @
                        (if diff6 <s 0 then [Println DroppedWentNegative] else []) @
                        [CounterAdd udp6 (if diff6 <s 0 then 0 else diff6)];
                  droppedUDP6 = (if diff6 <s 0 then lastDropped6 else droppedUDP6)
              in (ev @ ev6, Inr (droppedUDP, droppedUDP6)))"

text \<open>
  \<open>watchUDPBuffers\<close> never returns. Its model runs the loop over the files of a finite
  number of ticks and gives the events of these ticks and, unless a tick panicked, the
  values of \<open>lastDropped\<close> and \<open>lastDropped6\<close> that the next tick would start from.
\<close>

fun watchUDPBuffers :: "int64 \<Rightarrow> int64 \<Rightarrow> (source \<times> source) list \<Rightarrow> event list \<times> (go_panic + int64 \<times> int64)" where
  "watchUDPBuffers lastDropped lastDropped6 [] = ([], Inr (lastDropped, lastDropped6))"
| "watchUDPBuffers lastDropped lastDropped6 ((file, file6) # ticks) =
     (case tick lastDropped lastDropped6 file file6 of
        (ev, Inl p) \<Rightarrow> (ev, Inl p)
      | (ev, Inr (droppedUDP, droppedUDP6)) \<Rightarrow>
          (ev @ fst (watchUDPBuffers droppedUDP droppedUDP6 ticks),
           snd (watchUDPBuffers droppedUDP droppedUDP6 ticks)))"

text \<open>The values the program added to the dropped counter of a label, in order, and the
  counter they add up to (the sink keeps it as a \<open>float64\<close>; here it is the exact sum).\<close>

fun adds :: "label \<Rightarrow> event list \<Rightarrow> int64 list" where
  "adds l [] = []"
| "adds l (CounterAdd l' v # es) = (if l' = l then v # adds l es else adds l es)"
| "adds l (e # es) = adds l es"

definition droppedCounter :: "label \<Rightarrow> event list \<Rightarrow> int" where
  "droppedCounter l es = sum_list (map sint (adds l es))"

section \<open>The process locator\<close>

text \<open>
  \<open>filepath.Walk("/proc", walkProcFSStatus)\<close> calls the function once for every file
  and directory it reaches, in lexical order, and stops at the first call that returns
  an error. One such call: the path, whether Walk passes a non-nil \<open>err\<close>, and what
  \<open>ioutil.ReadFile(path)\<close> gives at that moment (\<open>None\<close> for an error).
\<close>

record walk_call =
  wc_path :: string
  wc_err :: bool
  wc_read :: "string option"

text \<open>The errors that \<open>walkProcFSStatus\<close> can return or that \<open>findPIDByName\<close> looks for.\<close>

datatype walk_error = EOF | AtoiError | ReadFileError

text \<open>
  \<open>walkProcFSStatus\<close> reads the global \<open>targetProcName\<close> and may assign the global
  \<open>targetPID\<close>: it is given both and returns the error (\<open>None\<close> for nil) and
  \<open>targetPID\<close> afterwards.
\<close>

definition walkProcFSStatus :: "string \<Rightarrow> string \<Rightarrow> walk_call \<Rightarrow> go_panic + walk_error option \<times> string" where
  "walkProcFSStatus targetProcName targetPID c =
     (if wc_err c then Inr (None, targetPID)
      else if Contains (wc_path c) ''/status'' \<and> Contains (wc_path c) ''/proc/'' \<and>
              Count (wc_path c) CHR ''/'' = 3 then
        case slice (wc_path c) 6 (LastIndex (wc_path c) CHR ''/'') of
          Inl p \<Rightarrow> Inl p
        | Inr digits \<Rightarrow>
            case Atoi digits of
              None \<Rightarrow> Inr (Some AtoiError, targetPID)
            | Some pid \<Rightarrow>
                case wc_read c of
                  None \<Rightarrow> Inr (Some ReadFileError, targetPID)
                | Some f \<Rightarrow>
                    case slice f 6 (IndexByte f CHR 0x0A) of
                      Inl p \<Rightarrow> Inl p
                    | Inr name \<Rightarrow>
                        if name = targetProcName then Inr (None, Itoa pid)
                        else Inr (None, targetPID)
      else Inr (None, targetPID))"

text \<open>\<open>filepath.Walk\<close> over the calls it would make: the error it returns and \<open>targetPID\<close>.\<close>

fun Walk :: "string \<Rightarrow> string \<Rightarrow> walk_call list \<Rightarrow> go_panic + walk_error option \<times> string" where
  "Walk targetProcName targetPID [] = Inr (None, targetPID)"
| "Walk targetProcName targetPID (c # cs) =
     (case walkProcFSStatus targetProcName targetPID c of
        Inl p \<Rightarrow> Inl p
      | Inr (Some e, pid) \<Rightarrow> Inr (Some e, pid)
      | Inr (None, pid) \<Rightarrow> Walk targetProcName pid cs)"

text \<open>How the start of the program ends when it does not reach the sampling loop.\<close>

datatype stop = Panicked go_panic | LogFatalWalk walk_error | LogFatalNotFound

text \<open>
  \<open>findPIDByName\<close> sets \<open>targetProcName\<close>, walks, and calls \<open>log.Fatal\<close> on every
  error of the walk but \<open>io.EOF\<close>. \<open>targetPID\<close> is the empty string when the program
  starts. The result is \<open>targetPID\<close> afterwards.
\<close>

definition findPIDByName :: "string \<Rightarrow> walk_call list \<Rightarrow> stop + string" where
  "findPIDByName procName calls =
     (case Walk procName [] calls of
        Inl p \<Rightarrow> Inl (Panicked p)
      | Inr (None, pid) \<Rightarrow> Inr pid
      | Inr (Some e, pid) \<Rightarrow> if e = EOF then Inr pid else Inl (LogFatalWalk e))"

text \<open>The part of \<open>main\<close> from \<open>findPIDByName\<close> to the check of \<open>targetPID\<close>.\<close>

definition locate :: "string \<Rightarrow> walk_call list \<Rightarrow> stop + string" where
  "locate procName calls =
     (case findPIDByName procName calls of
        Inl s \<Rightarrow> Inl s
      | Inr pid \<Rightarrow> if pid = [] then Inl LogFatalNotFound else Inr pid)"

section \<open>Notions used to state the properties\<close>

subsection \<open>Rows of a socket table\<close>

text \<open>
  A row is well formed when the parser can read it: it has the thirteen fields, the
  field at index 4 has a colon, the piece after the colon is a hexadecimal number that
  fits 32 bits, and the field at index 12 is a decimal number that fits an \<open>int\<close>.
  \<open>rxQueue\<close> and \<open>drops\<close> are these two numbers.
\<close>

definition wellFormedRow :: "string \<Rightarrow> bool" where
  "wellFormedRow text =
     (13 \<le> length (Fields text) \<and>
      2 \<le> length (Split (Fields text ! 4) CHR '':'') \<and>
      ParseInt (Split (Fields text ! 4) CHR '':'' ! 1) 16 32 \<noteq> None \<and>
      Atoi (Fields text ! 12) \<noteq> None)"

definition rxQueue :: "string \<Rightarrow> int64" where
  "rxQueue text = the (ParseInt (Split (Fields text ! 4) CHR '':'' ! 1) 16 32)"

definition drops :: "string \<Rightarrow> int64" where
  "drops text = the (Atoi (Fields text ! 12))"

text \<open>
  A row is malformed in a number when it has a field at index 4 with a colon, and
  either the piece after the colon is not a hexadecimal number that fits 32 bits, or
  the row has a field at index 12 and that field is not a decimal number that fits an
  \<open>int\<close>.
\<close>

definition malformedNumber :: "string \<Rightarrow> bool" where
  "malformedNumber text =
     (5 \<le> length (Fields text) \<and>
      2 \<le> length (Split (Fields text ! 4) CHR '':'') \<and>
      (ParseInt (Split (Fields text ! 4) CHR '':'' ! 1) 16 32 = None \<or>
       13 \<le> length (Fields text) \<and> Atoi (Fields text ! 12) = None))"

text \<open>
  The numbers of a row in the words of the specification. A numeral of a base is a
  non-empty string of digits of that base, and its value is positional. A plain row has
  thirteen fields or more; its field at index 4 has a colon, followed to the end of the
  field by a hexadecimal numeral below \<open>2 ^ 31\<close>; its field at index 12 is a decimal
  numeral below \<open>2 ^ 63\<close>.
\<close>

definition isNumeral :: "nat \<Rightarrow> string \<Rightarrow> bool" where
  "isNumeral base s =
     (s \<noteq> [] \<and> (\<forall>c\<in>set s. case digitVal c of None \<Rightarrow> False | Some d \<Rightarrow> d < base))"

fun digitsValue :: "nat \<Rightarrow> string \<Rightarrow> nat" where
  "digitsValue base [] = 0"
| "digitsValue base (c # cs) = the (digitVal c) * base ^ length cs + digitsValue base cs"

definition afterColon :: "string \<Rightarrow> string" where
  "afterColon f = tl (dropWhile (\<lambda>c. c \<noteq> CHR '':'') f)"

definition plainRow :: "string \<Rightarrow> bool" where
  "plainRow text =
     (13 \<le> length (Fields text) \<and>
      CHR '':'' \<in> set (Fields text ! 4) \<and>
      isNumeral 16 (afterColon (Fields text ! 4)) \<and>
      digitsValue 16 (afterColon (Fields text ! 4)) < 2 ^ 31 \<and>
      isNumeral 10 (Fields text ! 12) \<and>
      digitsValue 10 (Fields text ! 12) < 2 ^ 63)"

subsection \<open>Samples of a run\<close>

text \<open>The dropped total that a tick samples from a file; \<open>None\<close> when the parse panics.\<close>

definition droppedOf :: "source \<Rightarrow> int64 option" where
  "droppedOf f = (case snd (parseProcfsNetFile f) of Inl p \<Rightarrow> None | Inr (q, d) \<Rightarrow> Some d)"

text \<open>The component of a pair that belongs to a label.\<close>

fun sel :: "label \<Rightarrow> 'a \<times> 'a \<Rightarrow> 'a" where
  "sel udp (a, b) = a"
| "sel udp6 (a, b) = b"

text \<open>
  What lines 119 to 125 and 141 of the loop compute from the stored value and the
  successive totals of one protocol: the amounts added, and the stored value at the end.
\<close>

fun deltas :: "int64 \<Rightarrow> int64 list \<Rightarrow> int64 list" where
  "deltas prior [] = []"
| "deltas prior (t # ts) =
     (if t - prior <s 0 then 0 # deltas prior ts else (t - prior) # deltas t ts)"

fun baseline :: "int64 \<Rightarrow> int64 list \<Rightarrow> int64" where
  "baseline prior [] = prior"
| "baseline prior (t # ts) = (if t - prior <s 0 then baseline prior ts else baseline t ts)"

subsection \<open>Example files\<close>

text \<open>A header line, and a row of \<open>/proc/<pid>/net/udp\<close> with a given field at index 4
  and a given field at index 12.\<close>

definition header :: string where
  "header = ''  sl  local_address rem_address   st tx_queue rx_queue tr tm->when retrnsmt   uid  timeout inode ref pointer drops''"

definition socketRow :: "string \<Rightarrow> string \<Rightarrow> string" where
  "socketRow queues dropped =
     ''  481: 00000000:1FBD 00000000:0000 07 '' @ queues @
     '' 00:00000000 00000000     0        0 24772 2 0000000000000000 '' @ dropped"

definition table :: "string \<Rightarrow> string \<Rightarrow> source" where
  "table queues dropped = Some [header, socketRow queues dropped]"

text \<open>A table of one socket with an empty receive queue and the given drop count.\<close>

definition sample :: "string \<Rightarrow> source" where
  "sample dropped = table ''00000000:00000000'' dropped"

text \<open>The first line of \<open>/proc/<pid>/status\<close> and the line after it.\<close>

definition statusFile :: "string \<Rightarrow> string" where
  "statusFile name = ''Name:'' @ [CHR 0x09] @ name @ [CHR 0x0A] @ ''Umask:'' @ [CHR 0x09] @ ''0022'' @ [CHR 0x0A]"

section \<open>Properties of the parser\<close>

text \<open>Over well-formed rows the loop adds the two numbers of every row to its totals.\<close>

lemma scanLoop_wellFormed:
  "\<forall>r\<in>set rows. wellFormedRow r \<Longrightarrow> 1 \<le> n \<Longrightarrow>
   scanLoop n q d rows = ([], Inr (q + sum_list (map rxQueue rows), d + sum_list (map drops rows)))"
proof (induction rows arbitrary: n q d)
  case Nil
  then show ?case by simp
next
  case (Cons r rows)
  from Cons.prems have wf: "wellFormedRow r" and rest: "\<forall>r\<in>set rows. wellFormedRow r"
    by simp_all
  from wf obtain a b where a: "ParseInt (Split (Fields r ! 4) CHR '':'' ! 1) 16 32 = Some a"
    and b: "Atoi (Fields r ! 12) = Some b"
    and len: "13 \<le> length (Fields r)" "2 \<le> length (Split (Fields r ! 4) CHR '':'')"
    by (auto simp: wellFormedRow_def)
  have step: "scanLoop n q d (r # rows) = scanLoop (n + 1) (q + a) (d + b) rows"
    using Cons.prems(2) a b len by (simp add: Let_def)
  have "scanLoop (n + 1) (q + a) (d + b) rows =
        ([], Inr (q + a + sum_list (map rxQueue rows), d + b + sum_list (map drops rows)))"
    using rest by (intro Cons.IH) simp_all
  moreover have "rxQueue r = a" "drops r = b"
    using a b by (simp_all add: rxQueue_def drops_def)
  ultimately show ?case
    unfolding step by (simp add: add.assoc)
qed

lemma scanLoop_malformed:
  assumes "\<forall>r\<in>set pre. wellFormedRow r" and "malformedNumber bad" and "1 \<le> n"
  shows "snd (scanLoop n q d (pre @ bad # post)) = Inr (0, 0) \<and>
         fst (scanLoop n q d (pre @ bad # post)) \<in> {[UnableToParseQueued], [UnableToParseDropped]}"
  using assms
proof (induction pre arbitrary: n q d)
  case Nil
  then show ?case
    by (auto simp: malformedNumber_def Let_def split: option.splits)
next
  case (Cons r pre)
  from Cons.prems have wf: "wellFormedRow r" and rest: "\<forall>r\<in>set pre. wellFormedRow r"
    by simp_all
  from wf obtain a b where a: "ParseInt (Split (Fields r ! 4) CHR '':'' ! 1) 16 32 = Some a"
    and b: "Atoi (Fields r ! 12) = Some b"
    and len: "13 \<le> length (Fields r)" "2 \<le> length (Split (Fields r ! 4) CHR '':'')"
    by (auto simp: wellFormedRow_def)
  have step: "scanLoop n q d ((r # pre) @ bad # post) = scanLoop (n + 1) (q + a) (d + b) (pre @ bad # post)"
    using Cons.prems(3) a b len by (simp add: Let_def)
  show ?case unfolding step
    using rest Cons.prems(2) by (intro Cons.IH) simp_all
qed

text \<open>A plain row is well formed, and the parser reads the values of its numerals.\<close>

lemma parseDigits_value:
  "\<forall>c\<in>set s. case digitVal c of None \<Rightarrow> False | Some d \<Rightarrow> d < base \<Longrightarrow>
   parseDigits base acc s = Some (acc * base ^ length s + digitsValue base s)"
proof (induction s arbitrary: acc)
  case Nil
  then show ?case by simp
next
  case (Cons c cs)
  from Cons.prems obtain d where d: "digitVal c = Some d" "d < base"
    by (auto split: option.splits)
  from Cons.prems have "\<forall>c\<in>set cs. case digitVal c of None \<Rightarrow> False | Some d \<Rightarrow> d < base"
    by simp
  from Cons.IH [OF this, of "acc * base + d"] d show ?case
    by (simp add: algebra_simps)
qed

lemma ParseInt_numeral:
  assumes "isNumeral base s" and "digitsValue base s < 2 ^ (bitSize - 1)" and "0 < bitSize"
  shows "ParseInt s base bitSize = Some (of_nat (digitsValue base s))"
proof -
  from assms(1) obtain c cs where s: "s = c # cs" and c: "digitVal c \<noteq> None"
    by (cases s) (auto simp: isNumeral_def split: option.splits)
  have sign: "c \<noteq> CHR ''+''" "c \<noteq> CHR ''-''"
    using c by (auto simp: digitVal_def)
  have p: "parseDigits base 0 s = Some (digitsValue base s)"
    using parseDigits_value [of s base 0] assms(1) by (simp add: isNumeral_def)
  have "(2::nat) ^ (bitSize - 1) \<le> 2 ^ bitSize - 1"
    using assms(3) by (cases bitSize) simp_all
  with assms(2) have r: "\<not> 2 ^ bitSize - 1 < digitsValue base s"
    by linarith
  show ?thesis
    using p r assms(2) sign by (simp add: ParseInt_def ParseUint_def s Let_def)
qed

lemma splitFrom_no_sep: "sep \<notin> set s \<Longrightarrow> splitFrom sep cur s = [rev cur @ s]"
  by (induction s arbitrary: cur) auto

lemma splitFrom_sep:
  "sep \<in> set s \<Longrightarrow>
   splitFrom sep cur s =
     (rev cur @ takeWhile (\<lambda>c. c \<noteq> sep) s) # splitFrom sep [] (tl (dropWhile (\<lambda>c. c \<noteq> sep) s))"
  by (induction s arbitrary: cur) auto

lemma numeral_no_colon: "isNumeral base s \<Longrightarrow> CHR '':'' \<notin> set s"
  by (auto simp: isNumeral_def digitVal_def split: option.splits)

lemma Split_numeral_after_colon:
  assumes "CHR '':'' \<in> set f" and "isNumeral base (afterColon f)"
  shows "Split f CHR '':'' = [takeWhile (\<lambda>c. c \<noteq> CHR '':'') f, afterColon f]"
  using splitFrom_sep [OF assms(1), of "[]"]
    splitFrom_no_sep [OF numeral_no_colon [OF assms(2)], of "[]"]
  by (simp add: Split_def afterColon_def)

lemma plainRow_wellFormed:
  assumes "plainRow text"
  shows "wellFormedRow text"
    and "rxQueue text = of_nat (digitsValue 16 (afterColon (Fields text ! 4)))"
    and "drops text = of_nat (digitsValue 10 (Fields text ! 12))"
proof -
  from assms have len: "13 \<le> length (Fields text)"
    and colon: "CHR '':'' \<in> set (Fields text ! 4)"
    and rx: "isNumeral 16 (afterColon (Fields text ! 4))"
            "digitsValue 16 (afterColon (Fields text ! 4)) < 2 ^ 31"
    and dr: "isNumeral 10 (Fields text ! 12)" "digitsValue 10 (Fields text ! 12) < 2 ^ 63"
    by (simp_all add: plainRow_def)
  have sp: "Split (Fields text ! 4) CHR '':'' =
      [takeWhile (\<lambda>c. c \<noteq> CHR '':'') (Fields text ! 4), afterColon (Fields text ! 4)]"
    by (rule Split_numeral_after_colon [OF colon rx(1)])
  have q: "ParseInt (afterColon (Fields text ! 4)) 16 32 =
      Some (of_nat (digitsValue 16 (afterColon (Fields text ! 4))))"
    using rx by (intro ParseInt_numeral) simp_all
  have d: "Atoi (Fields text ! 12) = Some (of_nat (digitsValue 10 (Fields text ! 12)))"
    unfolding Atoi_def using dr by (intro ParseInt_numeral) simp_all
  show "wellFormedRow text"
    using len q d by (simp add: wellFormedRow_def sp)
  show "rxQueue text = of_nat (digitsValue 16 (afterColon (Fields text ! 4)))"
    using q by (simp add: rxQueue_def sp)
  show "drops text = of_nat (digitsValue 10 (Fields text ! 12))"
    using d by (simp add: drops_def)
qed

lemma parse_wellFormed:
  assumes "\<forall>r\<in>set rows. wellFormedRow r"
  shows "parseProcfsNetFile (Some (hdr # rows)) =
           ([], Inr (sum_list (map rxQueue rows), sum_list (map drops rows)))"
  using scanLoop_wellFormed [OF assms, of 1 0 0] by (simp add: parseProcfsNetFile_def)

section \<open>Properties of the sampling loop\<close>

subsection \<open>Arithmetic of non-negative totals\<close>

text \<open>The difference of two non-negative \<open>int\<close> values does not wrap around.\<close>

lemma sint_sub_nonneg:
  fixes a b :: int64
  assumes "0 \<le>s a" and "0 \<le>s b"
  shows "sint (a - b) = sint a - sint b"
proof -
  have "sint a < 2 ^ 63" "sint b < 2 ^ 63"
    using sint_lt [of a] sint_lt [of b] by simp_all
  moreover have "0 \<le> sint a" "0 \<le> sint b"
    using assms by (simp_all add: word_sle_eq)
  ultimately have "- (2 ^ 63) \<le> sint a - sint b" "sint a - sint b < 2 ^ 63"
    by linarith+
  then have "signed_take_bit 63 (sint a - sint b) = sint a - sint b"
    by (simp add: signed_take_bit_int_eq_self)
  then show ?thesis
    by (simp add: sint_word_ariths)
qed

lemma sless_sub_nonneg:
  fixes a b :: int64
  assumes "0 \<le>s a" and "0 \<le>s b"
  shows "(a - b <s 0) = (a <s b)"
  using sint_sub_nonneg [OF assms] by (simp add: word_sless_alt)

subsection \<open>The events of a tick and of a run\<close>

lemma adds_append: "adds l (xs @ ys) = adds l xs @ adds l ys"
  by (induction l xs rule: adds.induct) simp_all

lemma adds_Println: "adds l (map Println out) = []"
  by (induction out) simp_all

lemma tick_ok:
  assumes "parseProcfsNetFile f = (out, Inr (q, d))"
    and "parseProcfsNetFile f6 = (out6, Inr (q6, d6))"
  shows "snd (tick l l6 f f6) = Inr (baseline l [d], baseline l6 [d6])"
    and "adds udp (fst (tick l l6 f f6)) = deltas l [d]"
    and "adds udp6 (fst (tick l l6 f f6)) = deltas l6 [d6]"
  using assms by (simp_all add: tick_def Let_def adds_append adds_Println)

lemma droppedOf_SomeD:
  "droppedOf f = Some d \<Longrightarrow> \<exists>out q. parseProcfsNetFile f = (out, Inr (q, d))"
  by (cases "parseProcfsNetFile f") (auto simp: droppedOf_def split: sum.splits)

lemma watch_run:
  assumes "map (\<lambda>t. droppedOf (fst t)) ticks = map Some ts"
    and "map (\<lambda>t. droppedOf (snd t)) ticks = map Some ts6"
  shows "snd (watchUDPBuffers l l6 ticks) = Inr (baseline l ts, baseline l6 ts6) \<and>
         adds udp (fst (watchUDPBuffers l l6 ticks)) = deltas l ts \<and>
         adds udp6 (fst (watchUDPBuffers l l6 ticks)) = deltas l6 ts6"
  using assms
proof (induction ticks arbitrary: l l6 ts ts6)
  case Nil
  then show ?case by simp
next
  case (Cons tk ticks)
  obtain f f6 where tk: "tk = (f, f6)" by (cases tk)
  from Cons.prems tk obtain d ts' where ts: "ts = d # ts'" and d: "droppedOf f = Some d"
    and m: "map (\<lambda>t. droppedOf (fst t)) ticks = map Some ts'"
    by (cases ts) auto
  from Cons.prems tk obtain d6 ts6' where ts6: "ts6 = d6 # ts6'" and d6: "droppedOf f6 = Some d6"
    and m6: "map (\<lambda>t. droppedOf (snd t)) ticks = map Some ts6'"
    by (cases ts6) auto
  from d obtain out q where p: "parseProcfsNetFile f = (out, Inr (q, d))"
    by (blast dest: droppedOf_SomeD)
  from d6 obtain out6 q6 where p6: "parseProcfsNetFile f6 = (out6, Inr (q6, d6))"
    by (blast dest: droppedOf_SomeD)
  note t = tick_ok [OF p p6, of l l6]
  obtain ev where ev: "tick l l6 f f6 = (ev, Inr (baseline l [d], baseline l6 [d6]))"
    using t(1) by (cases "tick l l6 f f6") simp
  have a: "adds udp ev = deltas l [d]" and a6: "adds udp6 ev = deltas l6 [d6]"
    using t(2,3) ev by simp_all
  note IH = Cons.IH [OF m m6, of "baseline l [d]" "baseline l6 [d6]"]
  show ?case
    using IH a a6 by (simp add: tk ts ts6 ev adds_append)
qed

lemma watch_sel:
  assumes "map (\<lambda>t. droppedOf (fst t)) ticks = map Some ts"
    and "map (\<lambda>t. droppedOf (snd t)) ticks = map Some ts6"
  shows "adds lab (fst (watchUDPBuffers l l6 ticks)) = deltas (sel lab (l, l6)) (sel lab (ts, ts6))"
    and "\<exists>st. snd (watchUDPBuffers l l6 ticks) = Inr st \<and>
              sel lab st = baseline (sel lab (l, l6)) (sel lab (ts, ts6))"
  using watch_run [OF assms, of l l6] by (cases lab; simp)+

lemma tick_adds_nonneg: "v \<in> set (adds lab (fst (tick l l6 f f6))) \<Longrightarrow> 0 \<le>s v"
  by (cases lab)
     (auto simp: tick_def Let_def adds_append adds_Println word_sle_eq word_sless_alt
           split: prod.splits sum.splits if_splits)

lemma watch_adds_nonneg: "v \<in> set (adds lab (fst (watchUDPBuffers l l6 ticks))) \<Longrightarrow> 0 \<le>s v"
proof (induction ticks arbitrary: l l6)
  case Nil
  then show ?case by simp
next
  case (Cons tk ticks)
  obtain f f6 where tk: "tk = (f, f6)" by (cases tk)
  obtain ev r where t: "tick l l6 f f6 = (ev, r)" by (cases "tick l l6 f f6")
  have ev: "\<And>v. v \<in> set (adds lab ev) \<Longrightarrow> 0 \<le>s v"
    using tick_adds_nonneg [of _ lab l l6 f f6] t by simp
  show ?case
  proof (cases r)
    case (Inl p)
    with Cons.prems tk t ev show ?thesis by simp
  next
    case (Inr st)
    obtain a b where st: "st = (a, b)" by (cases st)
    from Cons.prems tk t Inr st
    have "v \<in> set (adds lab ev) \<or> v \<in> set (adds lab (fst (watchUDPBuffers a b ticks)))"
      by (simp add: adds_append)
    then show ?thesis using ev Cons.IH by blast
  qed
qed

lemma watch_append:
  "fst (watchUDPBuffers l l6 (ticks @ later)) =
   fst (watchUDPBuffers l l6 ticks) @
   (case snd (watchUDPBuffers l l6 ticks) of Inl p \<Rightarrow> [] | Inr (a, b) \<Rightarrow> fst (watchUDPBuffers a b later))"
proof (induction ticks arbitrary: l l6)
  case Nil
  then show ?case by simp
next
  case (Cons tk ticks)
  obtain f f6 where tk: "tk = (f, f6)" by (cases tk)
  show ?case
    by (cases "tick l l6 f f6") (auto simp: tk Cons.IH split: sum.splits)
qed

lemma sum_sint_nonneg: "\<forall>v\<in>set vs. 0 \<le>s v \<Longrightarrow> 0 \<le> sum_list (map sint vs)" for vs :: "int64 list"
  by (induction vs) (simp_all add: word_sle_eq)

lemma deltas_sorted_sum:
  "0 \<le>s b \<Longrightarrow> sorted_wrt (\<le>s) (b # ts) \<Longrightarrow>
   sum_list (map sint (deltas b ts)) = sint (last (b # ts)) - sint b"
proof (induction ts arbitrary: b)
  case Nil
  then show ?case by simp
next
  case (Cons t ts)
  from Cons.prems have bt: "b \<le>s t" and st: "sorted_wrt (\<le>s) (t # ts)"
    by simp_all
  from bt Cons.prems(1) have t0: "0 \<le>s t"
    by (simp add: word_sle_eq)
  have "\<not> t - b <s 0"
    using bt sless_sub_nonneg [OF t0 Cons.prems(1)] by (simp add: word_sle_eq word_sless_alt)
  then have "sum_list (map sint (deltas b (t # ts))) = sint (t - b) + sum_list (map sint (deltas t ts))"
    by simp
  also have "\<dots> = sint t - sint b + (sint (last (t # ts)) - sint t)"
    using Cons.IH [OF t0 st] sint_sub_nonneg [OF t0 Cons.prems(1)] by simp
  finally show ?case by simp
qed

lemma baseline_mono:
  "0 \<le>s b \<Longrightarrow> \<forall>t\<in>set ts. 0 \<le>s t \<Longrightarrow> b \<le>s baseline b ts \<and> 0 \<le>s baseline b ts"
proof (induction ts arbitrary: b)
  case Nil
  then show ?case by simp
next
  case (Cons t ts)
  from Cons.prems have t0: "0 \<le>s t" and rest: "\<forall>t\<in>set ts. 0 \<le>s t" by simp_all
  show ?case
  proof (cases "t - b <s 0")
    case True
    then show ?thesis using Cons.IH [OF Cons.prems(1) rest] by simp
  next
    case False
    then have "b \<le>s t"
      using sless_sub_nonneg [OF t0 Cons.prems(1)] by (simp add: word_sle_eq word_sless_alt)
    moreover have "t \<le>s baseline t ts \<and> 0 \<le>s baseline t ts"
      using Cons.IH [OF t0 rest] .
    ultimately show ?thesis using False by (auto simp: word_sle_eq)
  qed
qed

lemma deltas_below:
  "0 \<le>s b \<Longrightarrow> \<forall>t\<in>set ts. 0 \<le>s t \<and> t \<le>s b \<Longrightarrow>
   deltas b ts = replicate (length ts) 0 \<and> baseline b ts = b"
proof (induction ts)
  case Nil
  then show ?case by simp
next
  case (Cons t ts)
  from Cons.prems have t0: "0 \<le>s t" and tb: "t \<le>s b" by simp_all
  have eq: "\<not> t - b <s 0 \<Longrightarrow> t = b"
    using tb sless_sub_nonneg [OF t0 Cons.prems(1)]
    by (intro signed_word_eqI) (simp add: word_sle_eq word_sless_alt)
  show ?case
    using Cons eq by (cases "t - b <s 0") auto
qed

lemma deltas_until:
  assumes "0 \<le>s b" and "\<forall>x\<in>set below. 0 \<le>s x \<and> x \<le>s b" and "b <s t"
  shows "take (Suc (length below)) (deltas b (below @ t # rest)) = replicate (length below) 0 @ [t - b]"
  using assms(2)
proof (induction below)
  case Nil
  have t0: "0 \<le>s t"
    using assms(1,3) by (simp add: word_sle_eq word_sless_alt)
  have "\<not> t - b <s 0"
    using assms(3) sless_sub_nonneg [OF t0 assms(1)] by (simp add: word_sless_alt)
  then show ?case by simp
next
  case (Cons x below)
  from Cons.prems have x0: "0 \<le>s x" and xb: "x \<le>s b" by simp_all
  have eq: "\<not> x - b <s 0 \<Longrightarrow> x = b"
    using xb sless_sub_nonneg [OF x0 assms(1)]
    by (intro signed_word_eqI) (simp add: word_sle_eq word_sless_alt)
  show ?case
    using Cons eq by (cases "x - b <s 0") auto
qed

section \<open>Evaluating the example files\<close>

lemmas parse_eval = parseProcfsNetFile_def table_def header_def socketRow_def Fields_def
  spaceLen_def Split_def ParseInt_def ParseUint_def Atoi_def digitVal_def

lemma parse_sample_100: "parseProcfsNetFile (sample ''100'') = ([], Inr (0, 100))"
  by (simp add: sample_def parse_eval)
lemma parse_sample_40: "parseProcfsNetFile (sample ''40'') = ([], Inr (0, 40))"
  by (simp add: sample_def parse_eval)
lemma parse_sample_45: "parseProcfsNetFile (sample ''45'') = ([], Inr (0, 45))"
  by (simp add: sample_def parse_eval)
lemma parse_sample_130: "parseProcfsNetFile (sample ''130'') = ([], Inr (0, 130))"
  by (simp add: sample_def parse_eval)
lemma parse_None: "parseProcfsNetFile None = ([], Inr (0, 0))"
  by (simp add: parseProcfsNetFile_def)

lemmas sample_eval = parse_sample_100 parse_sample_40 parse_sample_45 parse_sample_130 parse_None

lemma parse_sample_5: "parseProcfsNetFile (sample ''5'') = ([], Inr (0, 5))"
  by (simp add: sample_def parse_eval)
lemma parse_sample_8: "parseProcfsNetFile (sample ''8'') = ([], Inr (0, 8))"
  by (simp add: sample_def parse_eval)
lemma parse_sample_20: "parseProcfsNetFile (sample ''20'') = ([], Inr (0, 20))"
  by (simp add: sample_def parse_eval)

lemmas run_eval = tick_def sample_eval parse_sample_5 parse_sample_8 parse_sample_20 word_sless_alt
  word_sle_eq droppedOf_def

text \<open>The fields of the example rows, and the definitions that evaluate their numbers.\<close>

lemmas num_eval = Split_def ParseInt_def ParseUint_def Atoi_def digitVal_def

lemma Fields_row_3_A_5:
  "Fields (socketRow ''00000003:0000000A'' ''5'') =
     [''481:'', ''00000000:1FBD'', ''00000000:0000'', ''07'', ''00000003:0000000A'',
      ''00:00000000'', ''00000000'', ''0'', ''0'', ''24772'', ''2'', ''0000000000000000'', ''5'']"
  by (simp add: socketRow_def Fields_def spaceLen_def)

lemma Fields_row_0A_7:
  "Fields (socketRow ''0A:0000'' ''7'') =
     [''481:'', ''00000000:1FBD'', ''00000000:0000'', ''07'', ''0A:0000'',
      ''00:00000000'', ''00000000'', ''0'', ''0'', ''24772'', ''2'', ''0000000000000000'', ''7'']"
  by (simp add: socketRow_def Fields_def spaceLen_def)

lemma Fields_row_ZZ_7:
  "Fields (socketRow ''00000000:0000ZZ00'' ''7'') =
     [''481:'', ''00000000:1FBD'', ''00000000:0000'', ''07'', ''00000000:0000ZZ00'',
      ''00:00000000'', ''00000000'', ''0'', ''0'', ''24772'', ''2'', ''0000000000000000'', ''7'']"
  by (simp add: socketRow_def Fields_def spaceLen_def)

lemma Fields_row_1_seven:
  "Fields (socketRow ''00000000:00000001'' ''seven'') =
     [''481:'', ''00000000:1FBD'', ''00000000:0000'', ''07'', ''00000000:00000001'',
      ''00:00000000'', ''00000000'', ''0'', ''0'', ''24772'', ''2'', ''0000000000000000'', ''seven'']"
  by (simp add: socketRow_def Fields_def spaceLen_def)

lemma Fields_row_tx_ZZ:
  "Fields (socketRow ''ZZZZZZZZ:00000008'' ''8'') =
     [''481:'', ''00000000:1FBD'', ''00000000:0000'', ''07'', ''ZZZZZZZZ:00000008'',
      ''00:00000000'', ''00000000'', ''0'', ''0'', ''24772'', ''2'', ''0000000000000000'', ''8'']"
  by (simp add: socketRow_def Fields_def spaceLen_def)

lemma Fields_row_no_colon:
  "Fields (socketRow ''0000000A'' ''5'') =
     [''481:'', ''00000000:1FBD'', ''00000000:0000'', ''07'', ''0000000A'',
      ''00:00000000'', ''00000000'', ''0'', ''0'', ''24772'', ''2'', ''0000000000000000'', ''5'']"
  by (simp add: socketRow_def Fields_def spaceLen_def)

lemma Fields_row_0A_5:
  "Fields (socketRow ''0A:0000'' ''5'') =
     [''481:'', ''00000000:1FBD'', ''00000000:0000'', ''07'', ''0A:0000'',
      ''00:00000000'', ''00000000'', ''0'', ''0'', ''24772'', ''2'', ''0000000000000000'', ''5'']"
  by (simp add: socketRow_def Fields_def spaceLen_def)

lemma Fields_row_no_drops:
  "Fields ''  481: 00000000:1FBD 00000000:0000 07 00000000:00000000 00:00000000 00000000     0        0 24772 2 0000000000000000'' =
     [''481:'', ''00000000:1FBD'', ''00000000:0000'', ''07'', ''00000000:00000000'',
      ''00:00000000'', ''00000000'', ''0'', ''0'', ''24772'', ''2'', ''0000000000000000'']"
  by (simp add: Fields_def spaceLen_def)

lemma Fields_garbage: "Fields ''garbage'' = [''garbage'']"
  by (simp add: Fields_def spaceLen_def)

lemmas rows_eval = Fields_row_3_A_5 Fields_row_0A_7 Fields_row_ZZ_7 Fields_row_1_seven
  Fields_row_tx_ZZ Fields_row_no_colon Fields_row_0A_5 Fields_row_no_drops Fields_garbage num_eval

section \<open>The claims about the parser\<close>

text \<open>
  Claim C2, as amended. For a header line followed by plain rows, the parser prints
  nothing and returns the pair of the sum over the rows of the hexadecimal value of the
  second piece (\<open>rx_queue\<close>, the piece after the colon) of the field at index 4, and
  the sum over the rows of the decimal value of the field at index 12. Both sums are
  sums of Go's \<open>int\<close>: they are taken modulo \<open>2 ^ 64\<close>.
\<close>

theorem parse_sums_rx_queue_and_drops:
  assumes "\<forall>r\<in>set rows. plainRow r"
  shows "parseProcfsNetFile (Some (hdr # rows)) =
           ([], Inr (of_nat (\<Sum>r\<leftarrow>rows. digitsValue 16 (afterColon (Fields r ! 4))),
                     of_nat (\<Sum>r\<leftarrow>rows. digitsValue 10 (Fields r ! 12))))"
proof -
  have wf: "\<forall>r\<in>set rows. wellFormedRow r"
    using assms plainRow_wellFormed(1) by blast
  have q: "map rxQueue rows = map (\<lambda>r. of_nat (digitsValue 16 (afterColon (Fields r ! 4)))) rows"
    using assms plainRow_wellFormed(2) by simp
  have d: "map drops rows = map (\<lambda>r. of_nat (digitsValue 10 (Fields r ! 12))) rows"
    using assms plainRow_wellFormed(3) by simp
  have s: "\<And>f. (of_nat (\<Sum>r\<leftarrow>rows. f r) :: int64) = (\<Sum>r\<leftarrow>rows. of_nat (f r))"
    by (induction rows) simp_all
  show ?thesis
    unfolding parse_wellFormed [OF wf] q d s ..
qed

lemmas plain_eval = plainRow_def isNumeral_def afterColon_def digitVal_def

text \<open>
  Two rows with the fields \<open>00000003:0000000A\<close> and \<open>0A:0000\<close> at index 4 and 5 and 7
  at index 12 give (10, 12).
\<close>

theorem parse_sums_rx_queue_and_drops_witness:
  "plainRow (socketRow ''00000003:0000000A'' ''5'') \<and>
   plainRow (socketRow ''0A:0000'' ''7'') \<and>
   parseProcfsNetFile (Some [header, socketRow ''00000003:0000000A'' ''5'', socketRow ''0A:0000'' ''7'']) =
     ([], Inr (10, 12))"
proof -
  have h: "\<forall>r\<in>set [socketRow ''00000003:0000000A'' ''5'', socketRow ''0A:0000'' ''7'']. plainRow r"
    by (simp add: plain_eval Fields_row_3_A_5 Fields_row_0A_7)
  from parse_sums_rx_queue_and_drops [OF h, of header] h show ?thesis
    by (simp add: plain_eval Fields_row_3_A_5 Fields_row_0A_7)
qed

text \<open>
  Claim C2 as stated fails: the single row with \<open>0A:0000\<close> at index 4 and 5 at index 12
  gives (0, 5), not (10, 5). Line 164 takes element 1 of the split, which is the piece
  after the colon.
\<close>

theorem parse_reads_tx_queue_counterexample:
  "parseProcfsNetFile (Some [header, socketRow ''0A:0000'' ''5'']) = ([], Inr (0, 5)) \<and>
   snd (parseProcfsNetFile (Some [header, socketRow ''0A:0000'' ''5''])) \<noteq> Inr (10, 5)"
  by (simp add: parseProcfsNetFile_def rows_eval)

text \<open>
  Claim C7, as amended. When well-formed rows are followed by a row that has a field
  with a colon at index 4 and whose number after the colon is not hexadecimal (in 32
  bits), or whose field at index 12 is there and is not decimal, the parser returns
  exactly (0, 0) after printing one line: the sums of the rows before are dropped, and
  the rows after are not read.
\<close>

theorem malformed_number_discards_sums:
  assumes "\<forall>r\<in>set pre. wellFormedRow r" and "malformedNumber bad"
  shows "snd (parseProcfsNetFile (Some (hdr # pre @ bad # post))) = Inr (0, 0) \<and>
         fst (parseProcfsNetFile (Some (hdr # pre @ bad # post))) \<in>
           {[UnableToParseQueued], [UnableToParseDropped]}"
  using scanLoop_malformed [OF assms, of 1 0 0 post] by (simp add: parseProcfsNetFile_def)

text \<open>
  A well-formed row with totals (10, 5) followed by a row with \<open>0000ZZ00\<close> after the
  colon, and followed by a row with \<open>seven\<close> at index 12.
\<close>

theorem malformed_number_discards_sums_witness:
  "wellFormedRow (socketRow ''00000003:0000000A'' ''5'') \<and>
   malformedNumber (socketRow ''00000000:0000ZZ00'' ''7'') \<and>
   malformedNumber (socketRow ''00000000:00000001'' ''seven'') \<and>
   parseProcfsNetFile (Some [header, socketRow ''00000003:0000000A'' ''5'',
       socketRow ''00000000:0000ZZ00'' ''7'']) = ([UnableToParseQueued], Inr (0, 0)) \<and>
   parseProcfsNetFile (Some [header, socketRow ''00000003:0000000A'' ''5'',
       socketRow ''00000000:00000001'' ''seven'']) = ([UnableToParseDropped], Inr (0, 0))"
proof -
  have h: "\<forall>r\<in>set [socketRow ''00000003:0000000A'' ''5'']. wellFormedRow r"
    by (simp add: wellFormedRow_def rows_eval)
  have b1: "malformedNumber (socketRow ''00000000:0000ZZ00'' ''7'')"
    by (simp add: malformedNumber_def rows_eval)
  have b2: "malformedNumber (socketRow ''00000000:00000001'' ''seven'')"
    by (simp add: malformedNumber_def rows_eval)
  have f1: "fst (parseProcfsNetFile (Some [header, socketRow ''00000003:0000000A'' ''5'',
       socketRow ''00000000:0000ZZ00'' ''7''])) = [UnableToParseQueued]"
    by (simp add: parseProcfsNetFile_def rows_eval)
  have f2: "fst (parseProcfsNetFile (Some [header, socketRow ''00000003:0000000A'' ''5'',
       socketRow ''00000000:00000001'' ''seven''])) = [UnableToParseDropped]"
    by (simp add: parseProcfsNetFile_def rows_eval)
  from malformed_number_discards_sums [OF h b1, of header "[]"]
    malformed_number_discards_sums [OF h b2, of header "[]"] h b1 b2 f1 f2
  show ?thesis
    by (simp add: prod_eq_iff)
qed

text \<open>
  Claim C7 as stated fails for a field at index 4 whose first piece is not hexadecimal:
  the parser never reads that piece, and the table is summed as if the row were well
  formed.
\<close>

theorem malformed_tx_queue_counterexample:
  "parseProcfsNetFile (Some [header, socketRow ''00000003:0000000A'' ''5'',
       socketRow ''ZZZZZZZZ:00000008'' ''8'']) = ([], Inr (18, 13)) \<and>
   snd (parseProcfsNetFile (Some [header, socketRow ''00000003:0000000A'' ''5'',
       socketRow ''ZZZZZZZZ:00000008'' ''8''])) \<noteq> Inr (0, 0)"
  by (simp add: parseProcfsNetFile_def rows_eval)

text \<open>
  Claim C4 fails on the code. A row with fewer than five fields, a row whose field at
  index 4 has no colon, and a row of twelve fields (a table without the \<open>drops\<close>
  column) make the parser index out of range: it panics instead of returning (0, 0), and
  the sampling loop ends with that panic.
\<close>

theorem short_row_panics:
  "parseProcfsNetFile (Some [header, ''garbage'']) = ([], Inl IndexOutOfRange) \<and>
   parseProcfsNetFile (Some [header, socketRow ''0000000A'' ''5'']) = ([], Inl IndexOutOfRange) \<and>
   parseProcfsNetFile (Some [header,
     ''  481: 00000000:1FBD 00000000:0000 07 00000000:00000000 00:00000000 00000000     0        0 24772 2 0000000000000000'']) =
     ([], Inl IndexOutOfRange) \<and>
   watchUDPBuffers 0 0 [(Some [header, ''garbage''], None), (sample ''40'', None)] =
     ([], Inl IndexOutOfRange)"
  by (simp add: parseProcfsNetFile_def rows_eval tick_def)

section \<open>The claims about the reconciler\<close>

lemma tick_negative_prints:
  assumes "parseProcfsNetFile f = (out, Inr (q, d))"
    and "parseProcfsNetFile f6 = (out6, Inr (q6, d6))"
    and "sel lab (d, d6) - sel lab (l, l6) <s 0"
  shows "Println DroppedWentNegative \<in> set (fst (tick l l6 f f6))"
  using assms by (cases lab) (simp_all add: tick_def Let_def)

text \<open>
  Claim C1, as amended. When a tick samples a total below the stored prior value of a
  protocol (both non-negative), the amount added for that tick is 0, the line
  "Dropped count went negative!" is printed, and the stored value stays what it was: it
  is not lowered to the sampled total. The next tick therefore computes its difference
  against the old, larger value.
\<close>

theorem negative_delta_keeps_prior:
  assumes "droppedOf (fst tk1) = Some (fst s1)" and "droppedOf (snd tk1) = Some (snd s1)"
    and "droppedOf (fst tk2) = Some (fst s2)" and "droppedOf (snd tk2) = Some (snd s2)"
    and "0 \<le>s sel lab s1" and "sel lab s1 <s sel lab (l, l6)"
  shows "adds lab (fst (watchUDPBuffers l l6 [tk1, tk2])) =
           [0, if sel lab s2 - sel lab (l, l6) <s 0 then 0 else sel lab s2 - sel lab (l, l6)] \<and>
         (\<exists>st. snd (watchUDPBuffers l l6 [tk1]) = Inr st \<and> sel lab st = sel lab (l, l6)) \<and>
         Println DroppedWentNegative \<in> set (fst (watchUDPBuffers l l6 [tk1]))"
proof -
  have b0: "0 \<le>s sel lab (l, l6)"
    using assms(5,6) by (simp add: word_sle_eq word_sless_alt)
  have neg: "sel lab s1 - sel lab (l, l6) <s 0"
    using assms(6) sless_sub_nonneg [OF assms(5) b0] by simp
  have s: "sel lab ([fst s1, fst s2], [snd s1, snd s2]) = [sel lab s1, sel lab s2]"
          "sel lab ([fst s1], [snd s1]) = [sel lab s1]"
    by (cases lab; cases s1; cases s2; simp)+
  have m2: "map (\<lambda>t. droppedOf (fst t)) [tk1, tk2] = map Some [fst s1, fst s2]"
           "map (\<lambda>t. droppedOf (snd t)) [tk1, tk2] = map Some [snd s1, snd s2]"
    using assms(1-4) by simp_all
  have m1: "map (\<lambda>t. droppedOf (fst t)) [tk1] = map Some [fst s1]"
           "map (\<lambda>t. droppedOf (snd t)) [tk1] = map Some [snd s1]"
    using assms(1,2) by simp_all
  have one: "adds lab (fst (watchUDPBuffers l l6 [tk1, tk2])) =
             [0, if sel lab s2 - sel lab (l, l6) <s 0 then 0 else sel lab s2 - sel lab (l, l6)]"
    using watch_sel(1) [OF m2, of lab l l6] neg by (simp add: s)
  have two: "\<exists>st. snd (watchUDPBuffers l l6 [tk1]) = Inr st \<and> sel lab st = sel lab (l, l6)"
    using watch_sel(2) [OF m1, of l l6 lab] neg by (simp add: s)
  obtain f f6 where tk1: "tk1 = (f, f6)" by (cases tk1)
  obtain d d6 where s1: "s1 = (d, d6)" by (cases s1)
  from assms(1) tk1 s1 obtain out q where p: "parseProcfsNetFile f = (out, Inr (q, d))"
    by (auto dest: droppedOf_SomeD)
  from assms(2) tk1 s1 obtain out6 q6 where p6: "parseProcfsNetFile f6 = (out6, Inr (q6, d6))"
    by (auto dest: droppedOf_SomeD)
  have "Println DroppedWentNegative \<in> set (fst (tick l l6 f f6))"
    using tick_negative_prints [OF p p6, of lab l l6] neg s1 by simp
  then have three: "Println DroppedWentNegative \<in> set (fst (watchUDPBuffers l l6 [tk1]))"
    by (cases "tick l l6 f f6") (auto simp: tk1 split: sum.splits)
  show ?thesis using one two three by blast
qed

text \<open>From a stored value of 100, the totals 40 and 45 add 0 and 0.\<close>

theorem negative_delta_keeps_prior_witness:
  "adds udp (fst (watchUDPBuffers 100 0 [(sample ''40'', None), (sample ''45'', None)])) = [0, 0] \<and>
   snd (watchUDPBuffers 100 0 [(sample ''40'', None)]) = Inr (100, 0) \<and>
   Println DroppedWentNegative \<in> set (fst (watchUDPBuffers 100 0 [(sample ''40'', None)]))"
proof -
  have h: "droppedOf (fst (sample ''40'', None)) = Some (fst (40, 0))"
      "droppedOf (snd (sample ''40'', None)) = Some (snd (40 :: int64, 0))"
      "droppedOf (fst (sample ''45'', None)) = Some (fst (45, 0))"
      "droppedOf (snd (sample ''45'', None)) = Some (snd (45 :: int64, 0))"
      "0 \<le>s sel udp (40 :: int64, 0 :: int64)"
      "sel udp (40 :: int64, 0 :: int64) <s sel udp (100, 0)"
    by (simp_all add: droppedOf_def sample_eval word_sle_eq word_sless_alt)
  from negative_delta_keeps_prior [OF h] show ?thesis
    by (simp add: tick_def sample_eval word_sless_alt)
qed

text \<open>
  Claim C1 as stated fails. Started as \<open>main\<close> starts it, the loop samples 100, 40 and
  45: the third tick adds 0, not 5, and the stored value after the second tick is not 40.
\<close>

theorem reset_to_current_counterexample:
  "adds udp (fst (watchUDPBuffers 0 0
      [(sample ''100'', None), (sample ''40'', None), (sample ''45'', None)])) = [100, 0, 0] \<and>
   adds udp (fst (watchUDPBuffers 0 0
      [(sample ''100'', None), (sample ''40'', None), (sample ''45'', None)])) \<noteq> [100, 0, 5] \<and>
   snd (watchUDPBuffers 0 0 [(sample ''100'', None), (sample ''40'', None)]) \<noteq> Inr (40, 0)"
  by (simp add: tick_def sample_eval word_sless_alt)

text \<open>
  Claim C3. Whatever the files of the ticks hold, and from whatever stored values the
  loop starts, every amount the loop adds to the dropped counter of a protocol is at
  least 0 (so \<open>Add\<close>, which panics on a negative amount, never does), and the counter
  after more ticks is at least the counter before them.
\<close>

theorem dropped_counter_never_decreases:
  "(\<forall>v\<in>set (adds lab (fst (watchUDPBuffers l l6 ticks))). 0 \<le>s v) \<and>
   droppedCounter lab (fst (watchUDPBuffers l l6 ticks)) \<le>
     droppedCounter lab (fst (watchUDPBuffers l l6 (ticks @ later)))"
proof -
  have nonneg: "\<And>a b ts. \<forall>v\<in>set (adds lab (fst (watchUDPBuffers a b ts))). 0 \<le>s v"
    using watch_adds_nonneg by blast
  have "0 \<le> sum_list (map sint (adds lab
          (case snd (watchUDPBuffers l l6 ticks) of Inl p \<Rightarrow> []
           | Inr (a, b) \<Rightarrow> fst (watchUDPBuffers a b later))))"
    by (intro sum_sint_nonneg) (auto split: sum.splits dest: watch_adds_nonneg)
  then have "droppedCounter lab (fst (watchUDPBuffers l l6 ticks)) \<le>
     droppedCounter lab (fst (watchUDPBuffers l l6 (ticks @ later)))"
    by (simp add: droppedCounter_def watch_append adds_append)
  with nonneg show ?thesis by blast
qed

text \<open>
  The totals 100 and 40 add 100 and 0; a third tick with the total 45 leaves the counter
  at 100.
\<close>

theorem dropped_counter_never_decreases_witness:
  "adds udp (fst (watchUDPBuffers 0 0 [(sample ''100'', None), (sample ''40'', None)])) = [100, 0] \<and>
   0 \<le>s (100 :: int64) \<and> 0 \<le>s (0 :: int64) \<and>
   droppedCounter udp (fst (watchUDPBuffers 0 0 [(sample ''100'', None), (sample ''40'', None)])) = 100 \<and>
   droppedCounter udp (fst (watchUDPBuffers 0 0
      ([(sample ''100'', None), (sample ''40'', None)] @ [(sample ''45'', None)]))) = 100"
  using dropped_counter_never_decreases
    [of udp 0 0 "[(sample ''100'', None), (sample ''40'', None)]" "[(sample ''45'', None)]"]
  by (simp add: run_eval droppedCounter_def)

text \<open>
  Claim C8, as amended. Let the loop start from a stored value \<open>b\<close> of a protocol (the
  parameter \<open>lastDropped\<close> or \<open>lastDropped6\<close>), not negative, and let the ticks sample
  the totals \<open>t0\<close>, ..., each at least the one before and \<open>t0\<close> at least \<open>b\<close>. Then
  the amounts added for that protocol sum to the last total minus \<open>b\<close>, and the amounts
  added after the first tick sum to the last total minus \<open>t0\<close>.
\<close>

theorem deltas_sum_to_last_minus_start:
  assumes "map (\<lambda>t. droppedOf (fst t)) ticks = map Some ts"
    and "map (\<lambda>t. droppedOf (snd t)) ticks = map Some ts6"
    and "0 \<le>s sel lab (l, l6)"
    and "sorted_wrt (\<le>s) (sel lab (l, l6) # sel lab (ts, ts6))"
  shows "droppedCounter lab (fst (watchUDPBuffers l l6 ticks)) =
           sint (last (sel lab (l, l6) # sel lab (ts, ts6))) - sint (sel lab (l, l6)) \<and>
         (\<forall>t0 rest. sel lab (ts, ts6) = t0 # rest \<longrightarrow>
            sum_list (map sint (drop 1 (adds lab (fst (watchUDPBuffers l l6 ticks))))) =
              sint (last (t0 # rest)) - sint t0)"
proof -
  let ?b = "sel lab (l, l6)" and ?ts = "sel lab (ts, ts6)"
  have a: "adds lab (fst (watchUDPBuffers l l6 ticks)) = deltas ?b ?ts"
    by (rule watch_sel(1) [OF assms(1,2)])
  have whole: "droppedCounter lab (fst (watchUDPBuffers l l6 ticks)) = sint (last (?b # ?ts)) - sint ?b"
    unfolding droppedCounter_def a by (rule deltas_sorted_sum [OF assms(3,4)])
  have after: "sum_list (map sint (drop 1 (adds lab (fst (watchUDPBuffers l l6 ticks))))) =
      sint (last (t0 # rest)) - sint t0" if ts: "?ts = t0 # rest" for t0 rest
  proof -
    from assms(4) ts have bt: "?b \<le>s t0" and st: "sorted_wrt (\<le>s) (t0 # rest)"
      by simp_all
    from bt assms(3) have t0: "0 \<le>s t0"
      by (simp add: word_sle_eq)
    have "\<not> t0 - ?b <s 0"
      using bt sless_sub_nonneg [OF t0 assms(3)] by (simp add: word_sle_eq word_sless_alt)
    then have "drop 1 (deltas ?b (t0 # rest)) = deltas t0 rest"
      by simp
    then show ?thesis
      using deltas_sorted_sum [OF t0 st] by (simp add: a ts)
  qed
  from whole after show ?thesis by blast
qed

text \<open>
  Started as \<open>main\<close> starts it, the loop adds 20 in all for the totals 5, 8, 8 and 20,
  and 15 after the first tick.
\<close>

theorem deltas_sum_to_last_minus_start_witness:
  "sorted_wrt (\<le>s) [0, 5, 8, 8, 20 :: int64] \<and>
   droppedCounter udp (fst (watchUDPBuffers 0 0
     [(sample ''5'', None), (sample ''8'', None), (sample ''8'', None), (sample ''20'', None)])) = 20 - 0 \<and>
   sum_list (map sint (drop 1 (adds udp (fst (watchUDPBuffers 0 0
     [(sample ''5'', None), (sample ''8'', None), (sample ''8'', None), (sample ''20'', None)]))))) = 20 - 5"
proof -
  have h: "map (\<lambda>t. droppedOf (fst t))
       [(sample ''5'', None), (sample ''8'', None), (sample ''8'', None), (sample ''20'', None)] =
       map Some [5, 8, 8, 20]"
    "map (\<lambda>t. droppedOf (snd t))
       [(sample ''5'', None), (sample ''8'', None), (sample ''8'', None), (sample ''20'', None)] =
       map Some [0, 0, 0, 0]"
    "0 \<le>s sel udp (0 :: int64, 0 :: int64)"
    "sorted_wrt (\<le>s) (sel udp (0 :: int64, 0) # sel udp ([5, 8, 8, 20], [0, 0, 0, 0]))"
    by (simp_all add: run_eval)
  from deltas_sum_to_last_minus_start [OF h] h(4) show ?thesis
    by simp
qed

text \<open>
  Claim C8 as stated fails: \<open>main\<close> starts the loop with the stored values 0, so the
  first tick adds its whole total. For the totals 5 and 8 the amounts added are 5 and 3,
  which sum to 8 and not to 8 - 5.
\<close>

theorem first_tick_delta_counterexample:
  "adds udp (fst (watchUDPBuffers 0 0 [(sample ''5'', None), (sample ''8'', None)])) = [5, 3] \<and>
   droppedCounter udp (fst (watchUDPBuffers 0 0 [(sample ''5'', None), (sample ''8'', None)])) = 8 \<and>
   droppedCounter udp (fst (watchUDPBuffers 0 0 [(sample ''5'', None), (sample ''8'', None)])) \<noteq>
     sint (8 :: int64) - sint (5 :: int64)"
  by (simp add: run_eval droppedCounter_def)

text \<open>
  Claim C10. For non-negative totals and a non-negative stored value of a protocol, a
  run without a panic ends with a stored value that is at least the one it started from.
  While the totals stay at or below the stored value every tick adds 0 and the stored
  value does not change; the first tick whose total exceeds it adds the difference to it.
\<close>

theorem baseline_never_lowered:
  assumes "map (\<lambda>t. droppedOf (fst t)) ticks = map Some ts"
    and "map (\<lambda>t. droppedOf (snd t)) ticks = map Some ts6"
    and "0 \<le>s sel lab (l, l6)"
    and "\<forall>t\<in>set (sel lab (ts, ts6)). 0 \<le>s t"
  shows "\<exists>st. snd (watchUDPBuffers l l6 ticks) = Inr st \<and>
           sel lab (l, l6) \<le>s sel lab st \<and> 0 \<le>s sel lab st \<and>
           ((\<forall>t\<in>set (sel lab (ts, ts6)). t \<le>s sel lab (l, l6)) \<longrightarrow>
              sel lab st = sel lab (l, l6) \<and>
              adds lab (fst (watchUDPBuffers l l6 ticks)) = replicate (length ticks) 0) \<and>
           (\<forall>below t rest.
              sel lab (ts, ts6) = below @ t # rest \<and>
              (\<forall>x\<in>set below. x \<le>s sel lab (l, l6)) \<and> sel lab (l, l6) <s t \<longrightarrow>
              take (Suc (length below)) (adds lab (fst (watchUDPBuffers l l6 ticks))) =
                replicate (length below) 0 @ [t - sel lab (l, l6)])"
proof -
  let ?b = "sel lab (l, l6)" and ?ts = "sel lab (ts, ts6)"
  from watch_sel(2) [OF assms(1,2), of l l6 lab]
  obtain st where st: "snd (watchUDPBuffers l l6 ticks) = Inr st" "sel lab st = baseline ?b ?ts"
    by blast
  have a: "adds lab (fst (watchUDPBuffers l l6 ticks)) = deltas ?b ?ts"
    by (rule watch_sel(1) [OF assms(1,2)])
  have len: "length ?ts = length ticks"
    using arg_cong [OF assms(1), of length] arg_cong [OF assms(2), of length]
    by (cases lab) simp_all
  have mono: "?b \<le>s sel lab st \<and> 0 \<le>s sel lab st"
    using baseline_mono [OF assms(3,4)] st(2) by simp
  have below: "(\<forall>t\<in>set ?ts. t \<le>s ?b) \<longrightarrow>
      sel lab st = ?b \<and> adds lab (fst (watchUDPBuffers l l6 ticks)) = replicate (length ticks) 0"
  proof
    assume "\<forall>t\<in>set ?ts. t \<le>s ?b"
    with assms(4) have "\<forall>t\<in>set ?ts. 0 \<le>s t \<and> t \<le>s ?b" by blast
    from deltas_below [OF assms(3) this] show
      "sel lab st = ?b \<and> adds lab (fst (watchUDPBuffers l l6 ticks)) = replicate (length ticks) 0"
      by (simp add: st(2) a len)
  qed
  have until: "\<forall>below t rest.
      ?ts = below @ t # rest \<and> (\<forall>x\<in>set below. x \<le>s ?b) \<and> ?b <s t \<longrightarrow>
      take (Suc (length below)) (adds lab (fst (watchUDPBuffers l l6 ticks))) =
        replicate (length below) 0 @ [t - ?b]"
  proof (intro allI impI)
    fix below t rest
    assume h: "?ts = below @ t # rest \<and> (\<forall>x\<in>set below. x \<le>s ?b) \<and> ?b <s t"
    with assms(4) have "\<forall>x\<in>set below. 0 \<le>s x \<and> x \<le>s ?b" by simp
    from deltas_until [OF assms(3) this, of t rest] h
    show "take (Suc (length below)) (adds lab (fst (watchUDPBuffers l l6 ticks))) =
        replicate (length below) 0 @ [t - ?b]"
      by (simp add: a)
  qed
  from st(1) mono below until show ?thesis by blast
qed

text \<open>
  From the stored value 100 the totals 40 and 45 add 0 and 0 and leave 100; a further
  total of 130 adds 30 and stores 130.
\<close>

theorem baseline_never_lowered_witness:
  "snd (watchUDPBuffers 100 0 [(sample ''40'', None), (sample ''45'', None)]) = Inr (100, 0) \<and>
   adds udp (fst (watchUDPBuffers 100 0 [(sample ''40'', None), (sample ''45'', None)])) = [0, 0] \<and>
   snd (watchUDPBuffers 100 0 [(sample ''40'', None), (sample ''45'', None), (sample ''130'', None)]) =
     Inr (130, 0) \<and>
   adds udp (fst (watchUDPBuffers 100 0
     [(sample ''40'', None), (sample ''45'', None), (sample ''130'', None)])) = [0, 0, 30]"
proof -
  have h: "map (\<lambda>t. droppedOf (fst t)) [(sample ''40'', None), (sample ''45'', None)] = map Some [40, 45]"
    "map (\<lambda>t. droppedOf (snd t)) [(sample ''40'', None), (sample ''45'', None)] = map Some [0, 0]"
    "0 \<le>s sel udp (100 :: int64, 0 :: int64)"
    "\<forall>t\<in>set (sel udp ([40, 45], [0, 0 :: int64])). 0 \<le>s t"
    by (simp_all add: run_eval)
  have below: "\<forall>t\<in>set (sel udp ([40, 45], [0, 0 :: int64])). t \<le>s sel udp (100, 0 :: int64)"
    by (simp add: run_eval)
  have g: "map (\<lambda>t. droppedOf (fst t)) [(sample ''40'', None), (sample ''45'', None), (sample ''130'', None)] =
       map Some [40, 45, 130]"
    "map (\<lambda>t. droppedOf (snd t)) [(sample ''40'', None), (sample ''45'', None), (sample ''130'', None)] =
       map Some [0, 0, 0]"
    "0 \<le>s sel udp (100 :: int64, 0 :: int64)"
    "\<forall>t\<in>set (sel udp ([40, 45, 130], [0, 0, 0 :: int64])). 0 \<le>s t"
    by (simp_all add: run_eval)
  from baseline_never_lowered [OF h] below
  obtain st where 1: "snd (watchUDPBuffers 100 0 [(sample ''40'', None), (sample ''45'', None)]) = Inr st"
    "sel udp st = 100"
    "adds udp (fst (watchUDPBuffers 100 0 [(sample ''40'', None), (sample ''45'', None)])) = [0, 0]"
    by (auto simp: numeral_2_eq_2)
  from baseline_never_lowered [OF g]
  obtain st' where 2: "snd (watchUDPBuffers 100 0
        [(sample ''40'', None), (sample ''45'', None), (sample ''130'', None)]) = Inr st'"
    and u: "\<forall>below t rest.
          sel udp ([40, 45, 130], [0, 0, 0 :: int64]) = below @ t # rest \<and>
          (\<forall>x\<in>set below. x \<le>s sel udp (100, 0 :: int64)) \<and> sel udp (100, 0 :: int64) <s t \<longrightarrow>
          take (Suc (length below)) (adds udp (fst (watchUDPBuffers 100 0
             [(sample ''40'', None), (sample ''45'', None), (sample ''130'', None)]))) =
            replicate (length below) 0 @ [t - sel udp (100, 0 :: int64)]"
    by blast
  from u [rule_format, of "[40, 45]" 130 "[]"]
  have 3: "take 3 (adds udp (fst (watchUDPBuffers 100 0
             [(sample ''40'', None), (sample ''45'', None), (sample ''130'', None)]))) = [0, 0, 30]"
    by (simp add: word_sle_eq word_sless_alt numeral_3_eq_3)
  from 1(3) 3 show ?thesis
    by (simp add: run_eval)
qed

section \<open>The claim about a file that cannot be opened\<close>

text \<open>
  Claim C9. When the file cannot be opened the parser prints nothing and returns (0, 0).
  The tick goes on with these values: it sets the gauge to 0 and adds the difference of
  0 and the stored value, clamped at 0, and then turns to the other protocol.
\<close>

theorem unopenable_file_gives_zeroes:
  "parseProcfsNetFile None = ([], Inr (0, 0)) \<and>
   adds udp (fst (tick l l6 None file6)) = [if 0 - l <s 0 then 0 else 0 - l] \<and>
   tick l l6 None None =
     ([GaugeSet udp 0] @ (if 0 - l <s 0 then [Println DroppedWentNegative] else []) @
      [CounterAdd udp (if 0 - l <s 0 then 0 else 0 - l)] @
      [GaugeSet udp6 0] @ (if 0 - l6 <s 0 then [Println DroppedWentNegative] else []) @
      [CounterAdd udp6 (if 0 - l6 <s 0 then 0 else 0 - l6)],
      Inr (if 0 - l <s 0 then l else 0, if 0 - l6 <s 0 then l6 else 0))"
  by (cases "parseProcfsNetFile file6")
     (auto simp: tick_def parseProcfsNetFile_def Let_def adds_append adds_Println split: sum.splits)

text \<open>
  With the stored value 7 and both files gone, the tick adds 0 twice and keeps 7.
\<close>

theorem unopenable_file_gives_zeroes_witness:
  "adds udp (fst (tick 7 0 None (sample ''40''))) = [0] \<and>
   tick 7 0 None None =
     ([GaugeSet udp 0, Println DroppedWentNegative, CounterAdd udp 0, GaugeSet udp6 0,
       CounterAdd udp6 0], Inr (7, 0))"
  using unopenable_file_gives_zeroes [of 7 0 "sample ''40''"]
  by (simp add: word_sless_alt)

section \<open>The claims about the process locator\<close>

lemmas walk_eval = locate_def findPIDByName_def walkProcFSStatus_def Count_def LastIndex_def
  slice_def statusFile_def Atoi_def ParseInt_def ParseUint_def digitVal_def Itoa_def decOfNat.simps

text \<open>
  Claim C5 fails on the code. With two processes of the requested name the locator
  returns the identifier of the second: \<open>walkProcFSStatus\<close> assigns \<open>targetPID\<close> at
  every match and returns nil, so the walk goes on and a later match replaces an earlier
  one. \<open>findPIDByName\<close> is prepared for an \<open>io.EOF\<close> that would end the walk at the
  first match, but nothing returns it.
\<close>

theorem last_match_wins:
  "locate ''statsd''
     [\<lparr>wc_path = ''/proc'', wc_err = False, wc_read = None\<rparr>,
      \<lparr>wc_path = ''/proc/12/status'', wc_err = False, wc_read = Some (statusFile ''statsd'')\<rparr>,
      \<lparr>wc_path = ''/proc/340/status'', wc_err = False, wc_read = Some (statusFile ''statsd'')\<rparr>] =
   Inr ''340''"
  by (simp add: walk_eval)

text \<open>
  Claim C6 fails on the code. A status file that cannot be read makes \<open>walkProcFSStatus\<close>
  return the error, the walk stops and \<open>findPIDByName\<close> calls \<open>log.Fatal\<close>; a status
  file with no newline makes the slice expression panic. In both cases the process with
  the requested name further on is never reached. Only an entry for which the walk itself
  reports an error is skipped.
\<close>

theorem read_failure_ends_the_program:
  "locate ''statsd''
     [\<lparr>wc_path = ''/proc/12/status'', wc_err = False, wc_read = None\<rparr>,
      \<lparr>wc_path = ''/proc/340/status'', wc_err = False, wc_read = Some (statusFile ''statsd'')\<rparr>] =
   Inl (LogFatalWalk ReadFileError) \<and>
   locate ''statsd''
     [\<lparr>wc_path = ''/proc/12/status'', wc_err = False, wc_read = Some ''Name:''\<rparr>,
      \<lparr>wc_path = ''/proc/340/status'', wc_err = False, wc_read = Some (statusFile ''statsd'')\<rparr>] =
   Inl (Panicked SliceBoundsOutOfRange) \<and>
   locate ''statsd''
     [\<lparr>wc_path = ''/proc/12/status'', wc_err = True, wc_read = None\<rparr>,
      \<lparr>wc_path = ''/proc/340/status'', wc_err = False, wc_read = Some (statusFile ''statsd'')\<rparr>] =
   Inr ''340''"
  by (simp add: walk_eval)

end
